theory Spec2Isabelle
  imports Main "HOL-Library.AList"
begin

section \<open>The real-time layer of the Wizard Game server (server.js)\<close>

text \<open>
  The Socket.IO part of \<^verbatim>\<open>server.js\<close> keeps three pieces of global state
  (lines 39-43) and registers one handler per inbound event (lines 413-580); a timer
  sweeps the spell buffer (lines 603-615).

  Conventions of the embedding.
  \<^item> A JavaScript \<^verbatim>\<open>Map\<close> iterates in insertion order, \<^verbatim>\<open>set\<close> on a present key keeps
    the key's place and \<^verbatim>\<open>set\<close> on an absent key appends: this is an association list
    with \<open>AList.update\<close>, \<open>AList.delete\<close> and \<open>map_of\<close>.
  \<^item> Socket ids and player ids are strings. Numbers that the server only copies
    (coordinates, colours, damage, speed) are integers; the only arithmetic of this layer
    is on the millisecond clock \<^verbatim>\<open>Date.now()\<close>, which is an integer and an explicit
    argument here.
  \<^item> A payload field that the client may leave out is an \<open>option\<close>; a missing payload
    (the event emitted without an argument) is \<open>None\<close>.
  \<^item> A handler returns the new state and the list of messages it emits, or the
    \<^verbatim>\<open>TypeError\<close> that reading a property of \<^verbatim>\<open>undefined\<close> raises.
\<close>

subsection \<open>Data\<close>

type_synonym sid = string
type_synonym pid = string

text \<open>
  \<^verbatim>\<open>{x, y}\<close> and \<^verbatim>\<open>{r, g, b, a}\<close>. The selectors carry a prefix: a constant named
  \<open>x\<close> or \<open>a\<close> would capture the variables of every later statement.
\<close>

record position =
  pos_x :: int
  pos_y :: int

record color =
  col_r :: int
  col_g :: int
  col_b :: int
  col_a :: int

text \<open>The object stored in \<^verbatim>\<open>playerSockets\<close> by the join handler (lines 426-433).\<close>

record playerData =
  playerId :: pid
  username :: string
  house :: string
  position :: position
  health :: int
  maxHealth :: int

text \<open>The object pushed on \<^verbatim>\<open>recentSpells\<close> and broadcast by the cast handler (lines 489-499).\<close>

record spellData =
  casterId :: pid
  casterName :: string
  spellName :: string
  spellPosition :: position
  direction :: position
  spellColor :: color
  spellDamage :: int
  speed :: int
  timestamp :: int

text \<open>The three globals of lines 39-41.\<close>

record server_state =
  activePlayers :: "(pid \<times> sid) list"
  playerSockets :: "(sid \<times> playerData) list"
  recentSpells :: "spellData list"

definition init_state :: server_state where
  "init_state = \<lparr>activePlayers = [], playerSockets = [], recentSpells = []\<rparr>"

definition MAX_SPELL_HISTORY :: nat where
  "MAX_SPELL_HISTORY = 50"

definition SPELL_TIMEOUT :: int where
  "SPELL_TIMEOUT = 5000"

subsection \<open>The recent-spell buffer\<close>

text \<open>
  Lines 501-504: \<^verbatim>\<open>push\<close>, then one \<^verbatim>\<open>shift\<close> when the length exceeds the bound.
  \<^verbatim>\<open>shift\<close> removes the first element.
\<close>

definition push_spell :: "spellData list \<Rightarrow> spellData \<Rightarrow> spellData list" where
  "push_spell buf sp =
     (let buf' = buf @ [sp]
      in if length buf' > MAX_SPELL_HISTORY then tl buf' else buf')"

text \<open>
  Lines 607-614: the sweep loop. \<^verbatim>\<open>splice(i, 1)\<close> removes the element at index \<open>i\<close>
  and the index stays; otherwise the index advances.
\<close>

function sweep_loop :: "int \<Rightarrow> nat \<Rightarrow> spellData list \<Rightarrow> spellData list" where
  "sweep_loop now i buf =
     (if i < length buf
      then (if now - timestamp (buf ! i) > SPELL_TIMEOUT
            then sweep_loop now i (take i buf @ drop (Suc i) buf)
            else sweep_loop now (Suc i) buf)
      else buf)"
  by pat_completeness auto
termination
  by (relation "measure (\<lambda>(now, i, buf). length buf - i)") auto

declare sweep_loop.simps [simp del]

definition sweep :: "int \<Rightarrow> server_state \<Rightarrow> server_state" where
  "sweep now s = s\<lparr>recentSpells := sweep_loop now 0 (recentSpells s)\<rparr>"

text \<open>What the sweep is meant to keep: the entries that are not older than the threshold.\<close>

definition fresh :: "int \<Rightarrow> spellData \<Rightarrow> bool" where
  "fresh now sp = (\<not> now - timestamp sp > SPELL_TIMEOUT)"

subsection \<open>Inbound payloads\<close>

text \<open>
  The objects the handlers destructure. \<^verbatim>\<open>position\<close> of a join may be left out
  (line 430: \<^verbatim>\<open>position || { x: 0, y: 0 }\<close>); so may \<^verbatim>\<open>color\<close>, \<^verbatim>\<open>damage\<close> and
  \<^verbatim>\<open>speed\<close> of a cast (lines 495-497) and \<^verbatim>\<open>killerId\<close> of a death.
\<close>

record joinPayload =
  j_playerId :: pid
  j_username :: string
  j_house :: string
  j_position :: "position option"

record movePayload =
  m_position :: "position option"

record castPayload =
  c_spellName :: string
  c_position :: position
  c_direction :: position
  c_color :: "color option"
  c_damage :: "int option"
  c_speed :: "int option"

record damagePayload =
  targetId :: pid
  damage :: int
  source :: string

record deathPayload =
  killerId :: "pid option"

record chatPayload =
  message :: string

datatype event =
    Join "joinPayload option"
  | Move "movePayload option"
  | Cast "castPayload option"
  | Damage "damagePayload option"
  | Death "deathPayload option"
  | Chat "chatPayload option"
  | Disconnect

subsection \<open>Outbound messages\<close>

text \<open>The four public fields sent in \<^verbatim>\<open>players:list\<close> and \<^verbatim>\<open>player:joined\<close> (lines 441-457).\<close>

record publicFields =
  pub_playerId :: pid
  pub_username :: string
  pub_house :: string
  pub_position :: position

text \<open>
  One constructor per outbound event name:
  \<^verbatim>\<open>players:list\<close>, \<^verbatim>\<open>player:joined\<close>, \<^verbatim>\<open>player:moved\<close> (playerId, username, house,
  position, health, maxHealth), \<^verbatim>\<open>spell:casted\<close>, \<^verbatim>\<open>damage:received\<close> (attackerId,
  damage, source), \<^verbatim>\<open>player:died\<close> (playerId, killerId), \<^verbatim>\<open>chat:message\<close> (username,
  house, message, timestamp) and \<^verbatim>\<open>player:left\<close> (the bare playerId).
\<close>

datatype message =
    PlayersList "publicFields list"
  | PlayerJoined publicFields
  | PlayerMoved pid string string position int int
  | SpellCasted spellData
  | DamageReceived pid int string
  | PlayerDied pid "pid option"
  | ChatMessage string string string int
  | PlayerLeft pid

text \<open>
  The four ways the handlers address a message, with the socket of the handler as
  argument where the call is made on it: \<^verbatim>\<open>socket.emit\<close>, \<^verbatim>\<open>socket.broadcast.emit\<close>,
  \<^verbatim>\<open>io.to(id).emit\<close> and \<^verbatim>\<open>io.emit\<close>.
\<close>

datatype target =
    ToSocket sid
  | BroadcastFrom sid
  | ToRoom sid
  | ToAll

type_synonym emit = "target \<times> message"

text \<open>
  Who receives a message, given the set of connected sockets. This is Socket.IO's
  behaviour, not code of the repository: \<^verbatim>\<open>socket.emit\<close> reaches that socket,
  \<^verbatim>\<open>socket.broadcast.emit\<close> every connected socket but that one, \<^verbatim>\<open>io.emit\<close> every
  connected socket, and \<^verbatim>\<open>io.to(id)\<close> the room \<open>id\<close>; the server never calls
  \<^verbatim>\<open>socket.join\<close>, so the only member a room \<open>id\<close> can have is the connected socket
  with that id.
\<close>

fun recipients :: "sid set \<Rightarrow> target \<Rightarrow> sid set" where
  "recipients conns (ToSocket c) = {c}"
| "recipients conns (BroadcastFrom c) = conns - {c}"
| "recipients conns (ToRoom c) = conns \<inter> {c}"
| "recipients conns ToAll = conns"

subsection \<open>The handlers\<close>

text \<open>
  Every handler but the join handler first looks up the session of its socket and does
  nothing without one. Behind that guard, and in the first line of the join handler, a
  property of the payload is read: if the client sent no payload this raises a
  \<^verbatim>\<open>TypeError\<close>, which nothing in \<^verbatim>\<open>server.js\<close> catches.
\<close>

datatype error = TypeError

type_synonym result = "error + server_state \<times> emit list"

text \<open>Lines 426-433: the session object a join stores.\<close>

definition session_of :: "joinPayload \<Rightarrow> playerData" where
  "session_of d =
     \<lparr>playerId = j_playerId d,
      username = j_username d,
      house = j_house d,
      position = (case j_position d of None \<Rightarrow> \<lparr>pos_x = 0, pos_y = 0\<rparr> | Some p \<Rightarrow> p),
      health = 100,
      maxHealth = 100\<rparr>"

text \<open>Lines 425-433: the two \<^verbatim>\<open>Map.set\<close> calls of the join handler.\<close>

definition register :: "sid \<Rightarrow> joinPayload \<Rightarrow> server_state \<Rightarrow> server_state" where
  "register c d s =
     s\<lparr>activePlayers := AList.update (j_playerId d) c (activePlayers s),
       playerSockets := AList.update c (session_of d) (playerSockets s)\<rparr>"

definition public_of :: "playerData \<Rightarrow> publicFields" where
  "public_of p =
     \<lparr>pub_playerId = playerId p, pub_username = username p,
      pub_house = house p, pub_position = position p\<rparr>"

text \<open>Lines 439-446: the roster, computed after the maps were written.\<close>

definition currentPlayers :: "pid \<Rightarrow> server_state \<Rightarrow> publicFields list" where
  "currentPlayers joiner s =
     map public_of (filter (\<lambda>p. playerId p \<noteq> joiner) (map snd (playerSockets s)))"

text \<open>Lines 452-457.\<close>

definition joinedData :: "joinPayload \<Rightarrow> publicFields" where
  "joinedData d =
     \<lparr>pub_playerId = j_playerId d, pub_username = j_username d, pub_house = j_house d,
      pub_position = (case j_position d of None \<Rightarrow> \<lparr>pos_x = 0, pos_y = 0\<rparr> | Some p \<Rightarrow> p)\<rparr>"

text \<open>
  Lines 419-463. Destructuring \<^verbatim>\<open>undefined\<close> (line 420) raises before anything is
  written.
\<close>

definition player_join :: "sid \<Rightarrow> joinPayload option \<Rightarrow> server_state \<Rightarrow> result" where
  "player_join c data s =
     (case data of
        None \<Rightarrow> Inl TypeError
      | Some d \<Rightarrow>
          (let s' = register c d s
           in Inr (s', [(ToSocket c, PlayersList (currentPlayers (j_playerId d) s')),
                        (BroadcastFrom c, PlayerJoined (joinedData d))])))"

text \<open>
  Lines 466-483. The session object is mutated in place, so it keeps its place in the
  map. Without a position in the payload the log line 480 reads
  \<^verbatim>\<open>data.position.x\<close> and raises before the broadcast.
\<close>

definition player_move :: "sid \<Rightarrow> movePayload option \<Rightarrow> server_state \<Rightarrow> result" where
  "player_move c data s =
     (case map_of (playerSockets s) c of
        None \<Rightarrow> Inr (s, [])
      | Some pd \<Rightarrow>
          (case data of
             None \<Rightarrow> Inl TypeError
           | Some d \<Rightarrow>
               (case m_position d of
                  None \<Rightarrow> Inl TypeError
                | Some p \<Rightarrow>
                    Inr (s\<lparr>playerSockets :=
                            AList.update c (pd\<lparr>position := p\<rparr>) (playerSockets s)\<rparr>,
                         [(BroadcastFrom c,
                           PlayerMoved (playerId pd) (username pd) (house pd) p
                             (health pd) (maxHealth pd))]))))"

text \<open>
  Lines 486-510. \<^verbatim>\<open>data.damage || 10\<close> and \<^verbatim>\<open>data.speed || 5\<close> take the default for a
  missing value and for \<open>0\<close>, which is falsy.
\<close>

definition or_default :: "int option \<Rightarrow> int \<Rightarrow> int" where
  "or_default v dflt = (case v of None \<Rightarrow> dflt | Some n \<Rightarrow> if n = 0 then dflt else n)"

definition make_spell :: "int \<Rightarrow> playerData \<Rightarrow> castPayload \<Rightarrow> spellData" where
  "make_spell now pd d =
     \<lparr>casterId = playerId pd,
      casterName = username pd,
      spellName = c_spellName d,
      spellPosition = c_position d,
      direction = c_direction d,
      spellColor = (case c_color d of
                      None \<Rightarrow> \<lparr>col_r = 1, col_g = 1, col_b = 1, col_a = 1\<rparr>
                    | Some col \<Rightarrow> col),
      spellDamage = or_default (c_damage d) 10,
      speed = or_default (c_speed d) 5,
      timestamp = now\<rparr>"

definition spell_cast :: "int \<Rightarrow> sid \<Rightarrow> castPayload option \<Rightarrow> server_state \<Rightarrow> result" where
  "spell_cast now c data s =
     (case map_of (playerSockets s) c of
        None \<Rightarrow> Inr (s, [])
      | Some pd \<Rightarrow>
          (case data of
             None \<Rightarrow> Inl TypeError
           | Some d \<Rightarrow>
               (let sp = make_spell now pd d
                in Inr (s\<lparr>recentSpells := push_spell (recentSpells s) sp\<rparr>,
                        [(BroadcastFrom c, SpellCasted sp)]))))"

text \<open>
  Lines 513-528. \<^verbatim>\<open>if (targetSocketId)\<close> is false for a missing entry and for the empty
  string.
\<close>

definition damage_dealt :: "sid \<Rightarrow> damagePayload option \<Rightarrow> server_state \<Rightarrow> result" where
  "damage_dealt c data s =
     (case map_of (playerSockets s) c of
        None \<Rightarrow> Inr (s, [])
      | Some pd \<Rightarrow>
          (case data of
             None \<Rightarrow> Inl TypeError
           | Some d \<Rightarrow>
               (case map_of (activePlayers s) (targetId d) of
                  None \<Rightarrow> Inr (s, [])
                | Some targetSocketId \<Rightarrow>
                    if targetSocketId = []
                    then Inr (s, [])
                    else Inr (s, [(ToRoom targetSocketId,
                                   DamageReceived (playerId pd) (damage d) (source d))]))))"

text \<open>Lines 531-541.\<close>

definition player_death :: "sid \<Rightarrow> deathPayload option \<Rightarrow> server_state \<Rightarrow> result" where
  "player_death c data s =
     (case map_of (playerSockets s) c of
        None \<Rightarrow> Inr (s, [])
      | Some pd \<Rightarrow>
          (case data of
             None \<Rightarrow> Inl TypeError
           | Some d \<Rightarrow> Inr (s, [(BroadcastFrom c, PlayerDied (playerId pd) (killerId d))])))"

text \<open>Lines 544-554.\<close>

definition chat_message :: "int \<Rightarrow> sid \<Rightarrow> chatPayload option \<Rightarrow> server_state \<Rightarrow> result" where
  "chat_message now c data s =
     (case map_of (playerSockets s) c of
        None \<Rightarrow> Inr (s, [])
      | Some pd \<Rightarrow>
          (case data of
             None \<Rightarrow> Inl TypeError
           | Some d \<Rightarrow>
               Inr (s, [(ToAll, ChatMessage (username pd) (house pd) (message d) now)])))"

text \<open>Lines 563-564: the two \<^verbatim>\<open>Map.delete\<close> calls of the disconnect handler.\<close>

definition deregister :: "sid \<Rightarrow> playerData \<Rightarrow> server_state \<Rightarrow> server_state" where
  "deregister c pd s =
     s\<lparr>activePlayers := AList.delete (playerId pd) (activePlayers s),
       playerSockets := AList.delete c (playerSockets s)\<rparr>"

text \<open>Lines 557-574.\<close>

definition disconnect :: "sid \<Rightarrow> server_state \<Rightarrow> result" where
  "disconnect c s =
     (case map_of (playerSockets s) c of
        None \<Rightarrow> Inr (s, [])
      | Some pd \<Rightarrow> Inr (deregister c pd s, [(BroadcastFrom c, PlayerLeft (playerId pd))]))"

subsection \<open>The server as a transition system\<close>

text \<open>
  Socket.IO dispatches one event at a time to the handler registered under its name
  (lines 419-574); the timer of line 603 runs the sweep. \<open>now\<close> is the value of
  \<^verbatim>\<open>Date.now()\<close> while the handler runs.
\<close>

fun handle :: "int \<Rightarrow> sid \<Rightarrow> event \<Rightarrow> server_state \<Rightarrow> result" where
  "handle now c (Join data) s = player_join c data s"
| "handle now c (Move data) s = player_move c data s"
| "handle now c (Cast data) s = spell_cast now c data s"
| "handle now c (Damage data) s = damage_dealt c data s"
| "handle now c (Death data) s = player_death c data s"
| "handle now c (Chat data) s = chat_message now c data s"
| "handle now c Disconnect s = disconnect c s"

datatype input = Recv sid event | Tick

fun step :: "int \<Rightarrow> input \<Rightarrow> server_state \<Rightarrow> result" where
  "step now (Recv c e) s = handle now c e s"
| "step now Tick s = Inr (sweep now s, [])"

text \<open>A run of the server; a handler that raises ends it.\<close>

fun run :: "server_state \<Rightarrow> (int \<times> input) list \<Rightarrow> error + server_state" where
  "run s [] = Inr s"
| "run s ((now, i) # rest) =
     (case step now i s of Inl e \<Rightarrow> Inl e | Inr (s', out) \<Rightarrow> run s' rest)"


subsection \<open>Joined and unjoined connections\<close>

fun is_join :: "event \<Rightarrow> bool" where
  "is_join (Join data) = True"
| "is_join e = False"

text \<open>An input is a join event of connection \<open>c\<close>.\<close>

fun join_from :: "sid \<Rightarrow> int \<times> input \<Rightarrow> bool" where
  "join_from c (now, Recv c' e) = (c' = c \<and> is_join e)"
| "join_from c (now, Tick) = False"

subsection \<open>Agreement of the two maps\<close>

text \<open>
  The two views agree when every session stored under a connection has its playerId
  sent to that connection by the player-keyed map, and every entry of the player-keyed
  map points to a connection whose session carries that playerId.
\<close>

definition consistent :: "server_state \<Rightarrow> bool" where
  "consistent s =
     (list_all (\<lambda>(c, pd). map_of (activePlayers s) (playerId pd) = Some c) (playerSockets s) \<and>
      list_all (\<lambda>(p, c). case map_of (playerSockets s) c of
                            None \<Rightarrow> False
                          | Some pd \<Rightarrow> playerId pd = p) (activePlayers s))"

text \<open>A \<^verbatim>\<open>Map\<close> holds each key once.\<close>

definition keys_distinct :: "server_state \<Rightarrow> bool" where
  "keys_distinct s =
     (distinct (map fst (activePlayers s)) \<and> distinct (map fst (playerSockets s)))"

text \<open>
  A join supersedes when its playerId is currently sent to a different connection, or
  when its connection currently holds a session under a different playerId.
\<close>

definition supersedes :: "sid \<Rightarrow> joinPayload \<Rightarrow> server_state \<Rightarrow> bool" where
  "supersedes c d s =
     ((case map_of (activePlayers s) (j_playerId d) of None \<Rightarrow> False | Some c' \<Rightarrow> c' \<noteq> c) \<or>
      (case map_of (playerSockets s) c of None \<Rightarrow> False | Some pd \<Rightarrow> playerId pd \<noteq> j_playerId d))"

fun superseding :: "input \<Rightarrow> server_state \<Rightarrow> bool" where
  "superseding (Recv c (Join (Some d))) s = supersedes c d s"
| "superseding i s = False"

fun no_supersede :: "server_state \<Rightarrow> (int \<times> input) list \<Rightarrow> bool" where
  "no_supersede s [] = True"
| "no_supersede s ((now, i) # rest) =
     (\<not> superseding i s \<and>
      (case step now i s of Inl e \<Rightarrow> True | Inr (s', out) \<Rightarrow> no_supersede s' rest))"

text \<open>Every session holds 100 in both health fields.\<close>

definition full_health :: "server_state \<Rightarrow> bool" where
  "full_health s = list_all (\<lambda>(c, pd). health pd = 100 \<and> maxHealth pd = 100) (playerSockets s)"

subsection \<open>Sequences of joins\<close>




subsection \<open>Sequences of casts\<close>

text \<open>
  A sequence of \<^verbatim>\<open>spell:cast\<close> events, each with the clock, its connection and its
  payload, as inputs of the server.
\<close>

definition cast_inputs :: "(int \<times> sid \<times> castPayload) list \<Rightarrow> (int \<times> input) list" where
  "cast_inputs evs = map (\<lambda>(now, c, d). (now, Recv c (Cast (Some d)))) evs"

text \<open>
  In the words of the specification: the entries that such a sequence appends, in arrival
  order. A cast of a joined connection appends the record built from its session, the
  payload and the clock; a cast of an unjoined connection appends nothing. This
  definition is not taken from the handler; the handler is compared with it.
\<close>

fun cast_spells ::
  "(sid \<times> playerData) list \<Rightarrow> (int \<times> sid \<times> castPayload) list \<Rightarrow> spellData list" where
  "cast_spells ps [] = []"
| "cast_spells ps ((now, c, d) # evs) =
     (case map_of ps c of
        None \<Rightarrow> cast_spells ps evs
      | Some pd \<Rightarrow> make_spell now pd d # cast_spells ps evs)"

subsection \<open>Sample values\<close>

text \<open>Concrete inputs for the instances at which the theorems below are applied.\<close>

definition sample_spell :: "nat \<Rightarrow> spellData" where
  "sample_spell t =
     \<lparr>casterId = ''p1'', casterName = ''Harry'', spellName = ''Lumos'',
      spellPosition = \<lparr>pos_x = 0, pos_y = 0\<rparr>, direction = \<lparr>pos_x = 1, pos_y = 0\<rparr>,
      spellColor = \<lparr>col_r = 1, col_g = 1, col_b = 1, col_a = 1\<rparr>,
      spellDamage = 10, speed = 5, timestamp = int t\<rparr>"

definition harry :: joinPayload where
  "harry = \<lparr>j_playerId = ''p1'', j_username = ''Harry'', j_house = ''Gryffindor'',
            j_position = Some \<lparr>pos_x = 0, pos_y = 0\<rparr>\<rparr>"

definition draco :: joinPayload where
  "draco = \<lparr>j_playerId = ''p2'', j_username = ''Draco'', j_house = ''Slytherin'',
            j_position = None\<rparr>"

text \<open>Harry on connection A and Draco on connection B.\<close>

definition two_players :: server_state where
  "two_players =
     \<lparr>activePlayers = [(''p1'', ''A''), (''p2'', ''B'')],
      playerSockets = [(''A'', session_of harry), (''B'', session_of draco)],
      recentSpells = []\<rparr>"

definition ron :: joinPayload where
  "ron = \<lparr>j_playerId = ''p3'', j_username = ''Ron'', j_house = ''Gryffindor'',
          j_position = Some \<lparr>pos_x = 2, pos_y = 7\<rparr>\<rparr>"

text \<open>The same player joins from connection A and then from connection B.\<close>

definition double_join :: "(int \<times> input) list" where
  "double_join = [(0, Recv ''A'' (Join (Some harry))), (1, Recv ''B'' (Join (Some harry)))]"

definition double_join_state :: server_state where
  "double_join_state =
     \<lparr>activePlayers = [(''p1'', ''B'')],
      playerSockets = [(''A'', session_of harry), (''B'', session_of harry)],
      recentSpells = []\<rparr>"

text \<open>After the double join, A disconnects and Ron joins on connection C.\<close>

definition stale_trace :: "(int \<times> input) list" where
  "stale_trace = double_join @ [(2, Recv ''A'' Disconnect), (3, Recv ''C'' (Join (Some ron)))]"

definition stale_state :: server_state where
  "stale_state =
     \<lparr>activePlayers = [(''p3'', ''C'')],
      playerSockets = [(''B'', session_of harry), (''C'', session_of ron)],
      recentSpells = []\<rparr>"

text \<open>A run in which no join supersedes.\<close>

definition orderly_trace :: "(int \<times> input) list" where
  "orderly_trace =
     [(0, Recv ''A'' (Join (Some harry))),
      (1, Recv ''B'' (Join (Some draco))),
      (2, Recv ''A'' (Join (Some harry))),
      (3, Recv ''A'' Disconnect)]"

definition lumos :: castPayload where
  "lumos = \<lparr>c_spellName = ''Lumos'', c_position = \<lparr>pos_x = 0, pos_y = 0\<rparr>,
            c_direction = \<lparr>pos_x = 1, pos_y = 0\<rparr>, c_color = None, c_damage = None,
            c_speed = Some 0\<rparr>"

text \<open>Harry, alone on connection A, casts 51 times.\<close>

definition harry_alone :: server_state where
  "harry_alone =
     \<lparr>activePlayers = [(''p1'', ''A'')], playerSockets = [(''A'', session_of harry)],
      recentSpells = []\<rparr>"

definition many_casts :: "(int \<times> sid \<times> castPayload) list" where
  "many_casts = map (\<lambda>t. (int t, ''A'', lumos)) [0..<51]"

section \<open>Properties\<close>

subsection \<open>Association lists\<close>

lemma list_all_update:
  "list_all P al \<Longrightarrow> P (k, v) \<Longrightarrow> list_all P (AList.update k v al)"
  by (induction al) auto

lemma list_all_delete: "list_all P al \<Longrightarrow> list_all P (AList.delete k al)"
  by (simp add: AList.delete_eq list_all_iff)

lemma list_all_map_of: "list_all P al \<Longrightarrow> map_of al k = Some v \<Longrightarrow> P (k, v)"
  by (auto simp: list_all_iff dest: map_of_SomeD)

subsection \<open>The sweep\<close>

lemma sweep_loop_filter:
  "i \<le> length buf \<Longrightarrow> sweep_loop now i buf = take i buf @ filter (fresh now) (drop i buf)"
proof (induction now i buf rule: sweep_loop.induct)
  case (1 now i buf)
  show ?case
  proof (cases "i < length buf")
    case False
    then have "sweep_loop now i buf = buf"
      by (subst sweep_loop.simps) simp
    with False "1.prems" show ?thesis by simp
  next
    case inb: True
    then have split: "drop i buf = buf ! i # drop (Suc i) buf"
      by (simp add: Cons_nth_drop_Suc)
    show ?thesis
    proof (cases "now - timestamp (buf ! i) > SPELL_TIMEOUT")
      case True
      let ?buf' = "take i buf @ drop (Suc i) buf"
      have len: "i \<le> length ?buf'" using inb by simp
      have "sweep_loop now i buf = sweep_loop now i ?buf'"
        using inb True by (subst sweep_loop.simps) simp
      also have "\<dots> = take i ?buf' @ filter (fresh now) (drop i ?buf')"
        using "1.IH"(1) [OF inb True len] .
      also have "\<dots> = take i buf @ filter (fresh now) (drop (Suc i) buf)"
        using inb by simp
      also have "\<dots> = take i buf @ filter (fresh now) (drop i buf)"
        using True by (simp add: split fresh_def)
      finally show ?thesis .
    next
      case False
      have len: "Suc i \<le> length buf" using inb by simp
      have "sweep_loop now i buf = sweep_loop now (Suc i) buf"
        using inb False by (subst sweep_loop.simps) simp
      also have "\<dots> = take (Suc i) buf @ filter (fresh now) (drop (Suc i) buf)"
        using "1.IH"(2) [OF inb False len] .
      also have "\<dots> = take i buf @ filter (fresh now) (drop i buf)"
        using False inb by (simp add: split fresh_def take_Suc_conv_app_nth)
      finally show ?thesis .
    qed
  qed
qed

text \<open>
  Claim C9. A sweep at time \<open>now\<close> leaves exactly the entries that are not older than
  5000 ms, in their order, whatever the length of the buffer; the two maps are untouched.
\<close>

theorem sweep_removes_exactly_old:
  "recentSpells (sweep now s) = filter (\<lambda>sp. \<not> now - timestamp sp > 5000) (recentSpells s)
   \<and> activePlayers (sweep now s) = activePlayers s
   \<and> playerSockets (sweep now s) = playerSockets s"
  using sweep_loop_filter [of 0 "recentSpells s" now]
  by (simp add: sweep_def fresh_def [abs_def] SPELL_TIMEOUT_def)

theorem sweep_removes_exactly_old_witness:
  "recentSpells (sweep 6000 (init_state\<lparr>recentSpells := map sample_spell [0, 1000, 999, 6000]\<rparr>))
     = map sample_spell [1000, 6000]"
  using sweep_removes_exactly_old
    [of 6000 "init_state\<lparr>recentSpells := map sample_spell [0, 1000, 999, 6000]\<rparr>"]
  by (simp add: sample_spell_def)

subsection \<open>The capacity bound\<close>

lemma push_spell_drop:
  assumes "length buf \<le> MAX_SPELL_HISTORY"
  shows "push_spell buf sp = drop (Suc (length buf) - MAX_SPELL_HISTORY) (buf @ [sp])"
proof (cases "length buf = MAX_SPELL_HISTORY")
  case True
  then have "Suc (length buf) - MAX_SPELL_HISTORY = Suc 0" by simp
  moreover have "push_spell buf sp = tl (buf @ [sp])"
    using True by (simp add: push_spell_def)
  moreover have "drop (Suc 0) (buf @ [sp]) = tl (buf @ [sp])"
    by (simp only: drop_Suc drop_0)
  ultimately show ?thesis by (simp only:)
next
  case False
  with assms have "Suc (length buf) - MAX_SPELL_HISTORY = 0" by simp
  moreover have "push_spell buf sp = buf @ [sp]"
    using False assms by (simp add: push_spell_def)
  ultimately show ?thesis by simp
qed

lemma push_all_drop:
  assumes "length buf \<le> MAX_SPELL_HISTORY"
  shows "foldl push_spell buf xs
           = drop (length buf + length xs - MAX_SPELL_HISTORY) (buf @ xs)"
proof (induction xs rule: rev_induct)
  case Nil
  with assms show ?case by simp
next
  case (snoc sp xs)
  let ?n = "length buf + length xs"
  let ?k = "?n - MAX_SPELL_HISTORY"
  let ?b = "drop ?k (buf @ xs)"
  have len: "length ?b \<le> MAX_SPELL_HISTORY" by simp
  have "foldl push_spell buf (xs @ [sp]) = push_spell ?b sp"
    using snoc.IH by simp
  also have "\<dots> = drop (Suc (length ?b) - MAX_SPELL_HISTORY) (?b @ [sp])"
    by (rule push_spell_drop [OF len])
  also have "?b @ [sp] = drop ?k (buf @ xs @ [sp])"
    by simp
  also have "drop (Suc (length ?b) - MAX_SPELL_HISTORY) (drop ?k (buf @ xs @ [sp]))
               = drop (Suc (length ?b) - MAX_SPELL_HISTORY + ?k) (buf @ xs @ [sp])"
    by (simp only: drop_drop)
  also have "Suc (length ?b) - MAX_SPELL_HISTORY + ?k = Suc ?n - MAX_SPELL_HISTORY"
    by (cases "?n \<le> MAX_SPELL_HISTORY") auto
  finally show ?case by simp
qed

lemma step_buffer_bounded:
  assumes "step now i s = Inr (s', out)" and "length (recentSpells s) \<le> MAX_SPELL_HISTORY"
  shows "length (recentSpells s') \<le> MAX_SPELL_HISTORY"
proof (cases i)
  case Tick
  have "length (filter (fresh now) (recentSpells s)) \<le> length (recentSpells s)"
    by (rule length_filter_le)
  with assms(2) have "length (filter (fresh now) (recentSpells s)) \<le> MAX_SPELL_HISTORY"
    by linarith
  moreover from Tick assms(1) have "recentSpells s' = filter (fresh now) (recentSpells s)"
    using sweep_loop_filter [of 0 "recentSpells s" now] by (auto simp: sweep_def)
  ultimately show ?thesis by simp
next
  case (Recv c e)
  show ?thesis
  proof (cases e)
    case (Join data)
    with Recv assms show ?thesis
      by (auto simp: player_join_def register_def Let_def split: option.splits)
  next
    case (Move data)
    with Recv assms show ?thesis
      by (auto simp: player_move_def split: option.splits)
  next
    case (Cast data)
    with Recv assms show ?thesis
      by (auto simp: spell_cast_def Let_def push_spell_drop split: option.splits)
  next
    case (Damage data)
    with Recv assms show ?thesis
      by (auto simp: damage_dealt_def split: option.splits if_splits)
  next
    case (Death data)
    with Recv assms show ?thesis
      by (auto simp: player_death_def split: option.splits)
  next
    case (Chat data)
    with Recv assms show ?thesis
      by (auto simp: chat_message_def split: option.splits)
  next
    case Disconnect
    with Recv assms show ?thesis
      by (auto simp: disconnect_def deregister_def split: option.splits)
  qed
qed

lemma run_buffer_bounded:
  "run s tr = Inr s' \<Longrightarrow> length (recentSpells s) \<le> MAX_SPELL_HISTORY
     \<Longrightarrow> length (recentSpells s') \<le> MAX_SPELL_HISTORY"
proof (induction tr arbitrary: s)
  case Nil
  then show ?case by simp
next
  case (Cons a tr)
  obtain now i where a: "a = (now, i)" by (cases a)
  from Cons.prems(1) obtain s1 out where st: "step now i s = Inr (s1, out)"
    and rest: "run s1 tr = Inr s'"
    by (auto simp: a split: sum.splits)
  from Cons.IH [OF rest step_buffer_bounded [OF st Cons.prems(2)]] show ?case .
qed

lemma cast_appends:
  "map_of (playerSockets s) c = Some pd \<Longrightarrow>
     spell_cast now c (Some d) s
       = Inr (s\<lparr>recentSpells := push_spell (recentSpells s) (make_spell now pd d)\<rparr>,
              [(BroadcastFrom c, SpellCasted (make_spell now pd d))])"
  by (simp add: spell_cast_def Let_def)

lemma run_casts:
  "run s (cast_inputs evs)
     = Inr (s\<lparr>recentSpells := foldl push_spell (recentSpells s) (cast_spells (playerSockets s) evs)\<rparr>)"
proof (induction evs arbitrary: s)
  case Nil
  then show ?case by (simp add: cast_inputs_def)
next
  case (Cons ev evs)
  obtain now c d where ev: "ev = (now, c, d)" by (cases ev)
  have unfold: "run s (cast_inputs ((now, c, d) # evs))
      = (case spell_cast now c (Some d) s of
           Inl e \<Rightarrow> Inl e
         | Inr (s', out) \<Rightarrow> run s' (cast_inputs evs))"
    unfolding cast_inputs_def by simp
  show ?case
  proof (cases "map_of (playerSockets s) c")
    case None
    then have "spell_cast now c (Some d) s = Inr (s, [])" by (simp add: spell_cast_def)
    with None Cons.IH [of s] show ?thesis by (simp add: unfold ev)
  next
    case (Some pd)
    let ?s1 = "s\<lparr>recentSpells := push_spell (recentSpells s) (make_spell now pd d)\<rparr>"
    from cast_appends [OF Some]
    have "run s (cast_inputs ((now, c, d) # evs)) = run ?s1 (cast_inputs evs)"
      by (simp add: unfold)
    with Some Cons.IH [of ?s1] show ?thesis by (simp add: ev)
  qed
qed

lemma cast_spells_joined:
  "map_of ps c = Some pd \<Longrightarrow>
     cast_spells ps (map (\<lambda>t. (f t, c, d)) ts) = map (\<lambda>t. make_spell (f t) pd d) ts"
  by (induction ts) simp_all

text \<open>
  Claim C8. Starting from a buffer within the bound, the buffer holds at most 50 entries
  after every append, and once more than 50 entries have been appended it holds exactly
  the 50 most recent of them, oldest first. The appends are those of the cast handler: a
  cast of a joined connection appends its record in this way, a sequence of casts leaves
  the buffer that appending their records one by one gives, and so, from a buffer within
  the bound, more than 50 appending casts leave exactly the records of the last 50. The
  buffer starts empty, and in every run of the server, with casts and sweeps in any
  order, it never holds more than 50 entries.
\<close>

theorem spell_buffer_keeps_last_50:
  "(length buf \<le> 50 \<longrightarrow>
     length (push_spell buf sp) \<le> 50 \<and>
     length (foldl push_spell buf xs) \<le> 50 \<and>
     (50 < length xs \<longrightarrow>
        foldl push_spell buf xs = drop (length xs - 50) xs \<and>
        length (foldl push_spell buf xs) = 50)) \<and>
   (run init_state tr = Inr s \<longrightarrow> length (recentSpells s) \<le> 50) \<and>
   (map_of (playerSockets s0) c = Some pd \<longrightarrow>
      spell_cast now c (Some d) s0
        = Inr (s0\<lparr>recentSpells := push_spell (recentSpells s0) (make_spell now pd d)\<rparr>,
               [(BroadcastFrom c, SpellCasted (make_spell now pd d))])) \<and>
   run s0 (cast_inputs evs)
     = Inr (s0\<lparr>recentSpells :=
                 foldl push_spell (recentSpells s0) (cast_spells (playerSockets s0) evs)\<rparr>) \<and>
   (length (recentSpells s0) \<le> 50 \<and> 50 < length (cast_spells (playerSockets s0) evs) \<longrightarrow>
      run s0 (cast_inputs evs)
        = Inr (s0\<lparr>recentSpells :=
                    drop (length (cast_spells (playerSockets s0) evs) - 50)
                      (cast_spells (playerSockets s0) evs)\<rparr>))"
proof -
  have seq: "length (push_spell buf sp) \<le> 50 \<and>
     length (foldl push_spell buf xs) \<le> 50 \<and>
     (50 < length xs \<longrightarrow>
        foldl push_spell buf xs = drop (length xs - 50) xs \<and>
        length (foldl push_spell buf xs) = 50)" if b: "length buf \<le> 50" for buf xs
  proof -
    from b have b': "length buf \<le> MAX_SPELL_HISTORY" by (simp add: MAX_SPELL_HISTORY_def)
    have all: "foldl push_spell buf xs = drop (length buf + length xs - 50) (buf @ xs)"
      using push_all_drop [OF b'] by (simp add: MAX_SPELL_HISTORY_def)
    have one: "length (push_spell buf sp) \<le> 50"
      using b by (simp add: push_spell_drop [OF b'] MAX_SPELL_HISTORY_def)
    have le: "length (foldl push_spell buf xs) \<le> 50"
      using b by (simp add: all)
    have last: "foldl push_spell buf xs = drop (length xs - 50) xs" if "50 < length xs"
      using that b by (simp add: all)
    show ?thesis using one le last by simp
  qed
  have reach: "length (recentSpells s) \<le> 50" if "run init_state tr = Inr s"
    using run_buffer_bounded [OF that] by (simp add: init_state_def MAX_SPELL_HISTORY_def)
  have one_cast: "spell_cast now c (Some d) s0
        = Inr (s0\<lparr>recentSpells := push_spell (recentSpells s0) (make_spell now pd d)\<rparr>,
               [(BroadcastFrom c, SpellCasted (make_spell now pd d))])"
    if "map_of (playerSockets s0) c = Some pd"
    using that by (rule cast_appends)
  have casts: "run s0 (cast_inputs evs)
     = Inr (s0\<lparr>recentSpells :=
                 foldl push_spell (recentSpells s0) (cast_spells (playerSockets s0) evs)\<rparr>)"
    by (rule run_casts)
  have last50: "run s0 (cast_inputs evs)
        = Inr (s0\<lparr>recentSpells :=
                    drop (length (cast_spells (playerSockets s0) evs) - 50)
                      (cast_spells (playerSockets s0) evs)\<rparr>)"
    if "length (recentSpells s0) \<le> 50" and "50 < length (cast_spells (playerSockets s0) evs)"
    using seq [OF that(1), of "cast_spells (playerSockets s0) evs"] that(2) casts by simp
  show ?thesis using seq [of buf xs] reach one_cast casts last50 by blast
qed

theorem spell_buffer_keeps_last_50_witness:
  "length ([] :: spellData list) \<le> 50 \<and> 50 < length (map sample_spell [0..<51]) \<and>
   foldl push_spell [] (map sample_spell [0..<51]) = map sample_spell [1..<51] \<and>
   map_of (playerSockets harry_alone) ''A'' = Some (session_of harry) \<and>
   length (recentSpells harry_alone) \<le> 50 \<and>
   50 < length (cast_spells (playerSockets harry_alone) many_casts) \<and>
   run harry_alone (cast_inputs many_casts)
     = Inr (harry_alone\<lparr>recentSpells :=
              map (\<lambda>t. make_spell (int t) (session_of harry) lumos) [1..<51]\<rparr>) \<and>
   run init_state ((0, Recv ''A'' (Join (Some harry))) # cast_inputs many_casts)
     = Inr (harry_alone\<lparr>recentSpells :=
              map (\<lambda>t. make_spell (int t) (session_of harry) lumos) [1..<51]\<rparr>) \<and>
   length (recentSpells (harry_alone\<lparr>recentSpells :=
              map (\<lambda>t. make_spell (int t) (session_of harry) lumos) [1..<51]\<rparr>)) \<le> 50"
proof -
  let ?final = "harry_alone\<lparr>recentSpells :=
              map (\<lambda>t. make_spell (int t) (session_of harry) lumos) [1..<51]\<rparr>"
  have sess: "map_of (playerSockets harry_alone) ''A'' = Some (session_of harry)"
    by (simp add: harry_alone_def)
  have spells: "cast_spells (playerSockets harry_alone) many_casts
      = map (\<lambda>t. make_spell (int t) (session_of harry) lumos) [0..<51]"
    unfolding many_casts_def by (rule cast_spells_joined [OF sess])
  have len0: "length (recentSpells harry_alone) \<le> 50"
    by (simp add: harry_alone_def)
  have len: "50 < length (cast_spells (playerSockets harry_alone) many_casts)"
    by (simp add: spells)
  note inst = spell_buffer_keeps_last_50 [of "[]" "sample_spell 0" "map sample_spell [0..<51]"
        "(0, Recv ''A'' (Join (Some harry))) # cast_inputs many_casts" ?final
        harry_alone "''A''" "session_of harry" 0 lumos many_casts]
  from inst have appended: "foldl push_spell [] (map sample_spell [0..<51])
      = map sample_spell [1..<51]"
    by (simp add: drop_map)
  from inst len0 len have "run harry_alone (cast_inputs many_casts)
      = Inr (harry_alone\<lparr>recentSpells :=
               drop (length (cast_spells (playerSockets harry_alone) many_casts) - 50)
                 (cast_spells (playerSockets harry_alone) many_casts)\<rparr>)"
    by blast
  then have cast: "run harry_alone (cast_inputs many_casts) = Inr ?final"
    by (simp add: spells drop_map)
  have reg: "register ''A'' harry init_state = harry_alone"
    by (simp add: register_def init_state_def harry_alone_def harry_def)
  have whole: "run init_state ((0, Recv ''A'' (Join (Some harry))) # cast_inputs many_casts)
      = Inr ?final"
    using cast by (simp add: player_join_def Let_def reg)
  from inst whole have bound: "length (recentSpells ?final) \<le> 50" by blast
  show ?thesis using sess len0 len appended cast whole bound by simp
qed

subsection \<open>Registration\<close>









subsection \<open>Disconnect\<close>

text \<open>
  Claim C5. When a connection that holds a session disconnects, the handler emits one
  \<^verbatim>\<open>player:left\<close> message carrying the bare playerId of that session, addressed to every
  connected socket except the departed one; in the state it leaves, the player-keyed map
  has no entry for that playerId and the connection-keyed map none for that connection.
  After a join, the playerId announced is the one of the join.
\<close>

theorem disconnect_deregisters_and_announces:
  "(map_of (playerSockets s) c = Some pd \<longrightarrow>
     disconnect c s = Inr (deregister c pd s, [(BroadcastFrom c, PlayerLeft (playerId pd))]) \<and>
     recipients conns (BroadcastFrom c) = conns - {c} \<and>
     map_of (activePlayers (deregister c pd s)) (playerId pd) = None \<and>
     map_of (playerSockets (deregister c pd s)) c = None) \<and>
   disconnect c (register c d s)
     = Inr (deregister c (session_of d) (register c d s),
            [(BroadcastFrom c, PlayerLeft (j_playerId d))])"
  by (simp add: disconnect_def deregister_def register_def delete_conv' update_conv'
      session_of_def)

theorem disconnect_deregisters_and_announces_witness:
  "map_of (playerSockets two_players) ''A'' = Some (session_of harry) \<and>
   disconnect ''A'' two_players =
     Inr (\<lparr>activePlayers = [(''p2'', ''B'')], playerSockets = [(''B'', session_of draco)],
           recentSpells = []\<rparr>,
          [(BroadcastFrom ''A'', PlayerLeft ''p1'')]) \<and>
   recipients {''B'', ''C''} (BroadcastFrom ''A'') = {''B'', ''C''}"
  using disconnect_deregisters_and_announces [of two_players "''A''" "session_of harry" "{''B'', ''C''}"]
  by (simp add: two_players_def session_of_def harry_def draco_def deregister_def AList.delete_eq)

subsection \<open>Unjoined connections\<close>

lemma unjoined_ignored:
  "map_of (playerSockets s) c = None \<Longrightarrow> \<not> is_join e \<Longrightarrow> handle now c e s = Inr (s, [])"
  by (cases e)
     (simp_all add: player_move_def spell_cast_def damage_dealt_def player_death_def
        chat_message_def disconnect_def)

lemma step_keeps_unjoined:
  assumes "step now i s = Inr (s', out)" and "\<not> join_from c (now, i)"
    and "map_of (playerSockets s) c = None"
  shows "map_of (playerSockets s') c = None"
proof (cases i)
  case Tick
  with assms show ?thesis by (auto simp: sweep_def)
next
  case (Recv c' e)
  show ?thesis
  proof (cases e)
    case (Join data)
    with Recv assms have "c' \<noteq> c" by auto
    with Join Recv assms show ?thesis
      by (auto simp: player_join_def register_def Let_def update_conv' split: option.splits)
  next
    case (Move data)
    with Recv assms show ?thesis
      by (auto simp: player_move_def update_conv' split: option.splits)
  next
    case (Cast data)
    with Recv assms show ?thesis
      by (auto simp: spell_cast_def Let_def split: option.splits)
  next
    case (Damage data)
    with Recv assms show ?thesis
      by (auto simp: damage_dealt_def split: option.splits if_splits)
  next
    case (Death data)
    with Recv assms show ?thesis
      by (auto simp: player_death_def split: option.splits)
  next
    case (Chat data)
    with Recv assms show ?thesis
      by (auto simp: chat_message_def split: option.splits)
  next
    case Disconnect
    with Recv assms show ?thesis
      by (auto simp: disconnect_def deregister_def delete_conv' split: option.splits)
  qed
qed

lemma run_keeps_unjoined:
  "run s tr = Inr s' \<Longrightarrow> \<not> list_ex (join_from c) tr \<Longrightarrow> map_of (playerSockets s) c = None
   \<Longrightarrow> map_of (playerSockets s') c = None"
proof (induction tr arbitrary: s)
  case Nil
  then show ?case by simp
next
  case (Cons a tr)
  obtain now i where a: "a = (now, i)" by (cases a)
  from Cons.prems(1) obtain s1 out where st: "step now i s = Inr (s1, out)"
    and rest: "run s1 tr = Inr s'"
    by (auto simp: a split: sum.splits)
  from Cons.prems(2) have nj: "\<not> join_from c (now, i)" and njs: "\<not> list_ex (join_from c) tr"
    by (simp_all add: a)
  have "map_of (playerSockets s1) c = None"
    using step_keeps_unjoined [OF st nj Cons.prems(3)] .
  with Cons.IH [OF rest njs] show ?case .
qed

text \<open>
  Claim C7. A connection without a session, and so every connection that has sent no
  join since the server started, has each of its non-join events ignored: the state is
  returned unchanged, no message is emitted and nothing is raised, whatever the payload
  (a missing one included). A move to \<open>(5, 5)\<close> before any join emits nothing.
\<close>

theorem unjoined_events_ignored:
  "(map_of (playerSockets s) c = None \<and> \<not> is_join e \<longrightarrow> handle now c e s = Inr (s, [])) \<and>
   (run init_state tr = Inr s \<and> \<not> list_ex (join_from c) tr \<and> \<not> is_join e
      \<longrightarrow> handle now c e s = Inr (s, [])) \<and>
   handle now c (Move (Some \<lparr>m_position = Some \<lparr>pos_x = 5, pos_y = 5\<rparr>\<rparr>)) init_state
     = Inr (init_state, [])"
proof -
  have init: "map_of (playerSockets init_state) c = None" by (simp add: init_state_def)
  have state: "handle now c e s = Inr (s, [])"
    if "map_of (playerSockets s) c = None" and "\<not> is_join e"
    using that by (rule unjoined_ignored)
  have trace: "handle now c e s = Inr (s, [])"
    if "run init_state tr = Inr s" and "\<not> list_ex (join_from c) tr" and "\<not> is_join e"
    using run_keeps_unjoined [OF that(1,2) init] that(3) by (rule unjoined_ignored)
  have move: "handle now c (Move (Some \<lparr>m_position = Some \<lparr>pos_x = 5, pos_y = 5\<rparr>\<rparr>)) init_state
     = Inr (init_state, [])"
    by (rule unjoined_ignored [OF init]) simp
  show ?thesis using state trace move by blast
qed

theorem unjoined_events_ignored_witness:
  "run init_state [(0, Recv ''B'' (Join (Some draco))), (1, Recv ''A'' (Move None))]
     = Inr (register ''B'' draco init_state) \<and>
   handle 2 ''A'' (Damage None) (register ''B'' draco init_state)
     = Inr (register ''B'' draco init_state, [])"
  using unjoined_events_ignored [of "register ''B'' draco init_state" "''A''" "Damage None" 2
      "[(0, Recv ''B'' (Join (Some draco))), (1, Recv ''A'' (Move None))]"]
  by (simp add: player_join_def player_move_def Let_def register_def init_state_def draco_def)

subsection \<open>Damage\<close>

text \<open>
  Claim C2 is false on this code. Harry (connection A) reports 30 damage on Draco: the
  handler returns the state it was given, so no health field is written.
\<close>

theorem damage_dealt_mutates_health_counterexample:
  "damage_dealt ''A'' (Some \<lparr>targetId = ''p2'', damage = 30, source = ''Stupefy''\<rparr>) two_players
     = Inr (two_players, [(ToRoom ''B'', DamageReceived ''p1'' 30 ''Stupefy'')])"
  by (simp add: damage_dealt_def two_players_def session_of_def harry_def draco_def)

text \<open>
  Claim C2, amended. Processing a damage-dealt event mutates no session and no health
  field: whenever the handler returns, the state is the one it was given. For a joined
  sender with a payload it returns, and what it emits is the relay alone: the one
  damage-received message to the connection that the player-keyed map gives for the
  target, or nothing when the map gives none.
\<close>

theorem damage_dealt_changes_nothing:
  "(damage_dealt c data s = Inr (s', out) \<longrightarrow>
      s' = s \<and>
      map (\<lambda>(k, pd). health pd) (playerSockets s') = map (\<lambda>(k, pd). health pd) (playerSockets s)) \<and>
   (map_of (playerSockets s) c = Some pd \<and> map_of (activePlayers s) (targetId d) = Some tc \<and>
      tc \<noteq> [] \<longrightarrow>
      damage_dealt c (Some d) s
        = Inr (s, [(ToRoom tc, DamageReceived (playerId pd) (damage d) (source d))])) \<and>
   (map_of (playerSockets s) c = Some pd \<and> map_of (activePlayers s) (targetId d) = None \<longrightarrow>
      damage_dealt c (Some d) s = Inr (s, []))"
proof -
  have same: "s' = s \<and>
      map (\<lambda>(k, pd). health pd) (playerSockets s') = map (\<lambda>(k, pd). health pd) (playerSockets s)"
    if "damage_dealt c data s = Inr (s', out)"
    using that by (auto simp: damage_dealt_def split: option.splits if_splits)
  have relay: "damage_dealt c (Some d) s
        = Inr (s, [(ToRoom tc, DamageReceived (playerId pd) (damage d) (source d))])"
    if "map_of (playerSockets s) c = Some pd" and "map_of (activePlayers s) (targetId d) = Some tc"
      and "tc \<noteq> []"
    using that by (simp add: damage_dealt_def)
  have drop: "damage_dealt c (Some d) s = Inr (s, [])"
    if "map_of (playerSockets s) c = Some pd" and "map_of (activePlayers s) (targetId d) = None"
    using that by (simp add: damage_dealt_def)
  show ?thesis using same relay drop by blast
qed

theorem damage_dealt_changes_nothing_witness:
  "map_of (playerSockets two_players) ''A'' = Some (session_of harry) \<and>
   map_of (activePlayers two_players) ''p2'' = Some ''B'' \<and>
   damage_dealt ''A'' (Some \<lparr>targetId = ''p2'', damage = 30, source = ''Stupefy''\<rparr>) two_players
     = Inr (two_players, [(ToRoom ''B'', DamageReceived ''p1'' 30 ''Stupefy'')]) \<and>
   map (\<lambda>(k, pd). health pd) (playerSockets two_players) = [100, 100]"
  using damage_dealt_changes_nothing [of "''A''"
         "Some \<lparr>targetId = ''p2'', damage = 30, source = ''Stupefy''\<rparr>" two_players
         two_players "[(ToRoom ''B'', DamageReceived ''p1'' 30 ''Stupefy'')]"
         "session_of harry" "\<lparr>targetId = ''p2'', damage = 30, source = ''Stupefy''\<rparr>" "''B''"]
  by (simp add: two_players_def session_of_def harry_def draco_def)

subsection \<open>Agreement of the two maps\<close>

lemma list_all_map_of_iff:
  "distinct (map fst al) \<Longrightarrow>
     list_all (\<lambda>(k, v). P k v) al = (\<forall>k v. map_of al k = Some v \<longrightarrow> P k v)"
  by (auto simp: list_all_iff)

lemma case_option_ex:
  "(case m of None \<Rightarrow> False | Some v \<Rightarrow> Q v) = (\<exists>v. m = Some v \<and> Q v)"
  by (cases m) auto

lemma consistent_iff:
  assumes "keys_distinct s"
  shows "consistent s =
     ((\<forall>c pd. map_of (playerSockets s) c = Some pd
          \<longrightarrow> map_of (activePlayers s) (playerId pd) = Some c) \<and>
      (\<forall>p c. map_of (activePlayers s) p = Some c
          \<longrightarrow> (\<exists>pd. map_of (playerSockets s) c = Some pd \<and> playerId pd = p)))"
proof -
  from assms have d1: "distinct (map fst (playerSockets s))"
    and d2: "distinct (map fst (activePlayers s))"
    by (simp_all add: keys_distinct_def)
  show ?thesis
    unfolding consistent_def
    by (simp only: list_all_map_of_iff [OF d1] list_all_map_of_iff [OF d2] case_option_ex)
qed

lemma register_keys_distinct: "keys_distinct s \<Longrightarrow> keys_distinct (register c d s)"
  by (simp add: keys_distinct_def register_def distinct_update)

lemma deregister_keys_distinct: "keys_distinct s \<Longrightarrow> keys_distinct (deregister c pd s)"
  by (simp add: keys_distinct_def deregister_def distinct_delete)

lemma register_consistent:
  assumes kd: "keys_distinct s" and con: "consistent s" and ns: "\<not> supersedes c d s"
  shows "consistent (register c d s)"
proof -
  note kd' = register_keys_distinct [OF kd, of c d]
  from con have A: "\<And>c' pd. map_of (playerSockets s) c' = Some pd
          \<Longrightarrow> map_of (activePlayers s) (playerId pd) = Some c'"
    and B: "\<And>p c'. map_of (activePlayers s) p = Some c'
          \<Longrightarrow> \<exists>pd. map_of (playerSockets s) c' = Some pd \<and> playerId pd = p"
    by (simp_all add: consistent_iff [OF kd])
  from ns have N1: "\<And>c'. map_of (activePlayers s) (j_playerId d) = Some c' \<Longrightarrow> c' = c"
    and N2: "\<And>pd. map_of (playerSockets s) c = Some pd \<Longrightarrow> playerId pd = j_playerId d"
    by (auto simp: supersedes_def split: option.splits)
  have ps: "map_of (playerSockets (register c d s)) = (map_of (playerSockets s))(c \<mapsto> session_of d)"
    and ap: "map_of (activePlayers (register c d s)) = (map_of (activePlayers s))(j_playerId d \<mapsto> c)"
    by (simp_all add: register_def update_conv')
  have pid: "playerId (session_of d) = j_playerId d" by (simp add: session_of_def)
  show ?thesis
    unfolding consistent_iff [OF kd'] ps ap
  proof (intro conjI allI impI)
    fix c' pd assume h: "((map_of (playerSockets s))(c \<mapsto> session_of d)) c' = Some pd"
    show "((map_of (activePlayers s))(j_playerId d \<mapsto> c)) (playerId pd) = Some c'"
    proof (cases "c' = c")
      case True
      with h pid show ?thesis by simp
    next
      case False
      with h have old: "map_of (playerSockets s) c' = Some pd" by simp
      from A [OF old] N1 False have "playerId pd \<noteq> j_playerId d" by auto
      with A [OF old] show ?thesis by simp
    qed
  next
    fix p c' assume h: "((map_of (activePlayers s))(j_playerId d \<mapsto> c)) p = Some c'"
    show "\<exists>pd. ((map_of (playerSockets s))(c \<mapsto> session_of d)) c' = Some pd \<and> playerId pd = p"
    proof (cases "p = j_playerId d")
      case True
      with h pid show ?thesis by simp
    next
      case False
      with h have old: "map_of (activePlayers s) p = Some c'" by simp
      from B [OF old] obtain pd where pd: "map_of (playerSockets s) c' = Some pd" "playerId pd = p"
        by blast
      with N2 False have "c' \<noteq> c" by auto
      with pd show ?thesis by simp
    qed
  qed
qed

lemma deregister_consistent:
  assumes kd: "keys_distinct s" and con: "consistent s"
    and sess: "map_of (playerSockets s) c = Some pd"
  shows "consistent (deregister c pd s)"
proof -
  note kd' = deregister_keys_distinct [OF kd, of c pd]
  from con have A: "\<And>c' q. map_of (playerSockets s) c' = Some q
          \<Longrightarrow> map_of (activePlayers s) (playerId q) = Some c'"
    and B: "\<And>p c'. map_of (activePlayers s) p = Some c'
          \<Longrightarrow> \<exists>q. map_of (playerSockets s) c' = Some q \<and> playerId q = p"
    by (simp_all add: consistent_iff [OF kd])
  have ps: "map_of (playerSockets (deregister c pd s)) = (map_of (playerSockets s))(c := None)"
    and ap: "map_of (activePlayers (deregister c pd s)) = (map_of (activePlayers s))(playerId pd := None)"
    by (simp_all add: deregister_def delete_conv')
  show ?thesis
    unfolding consistent_iff [OF kd'] ps ap
  proof (intro conjI allI impI)
    fix c' q assume h: "((map_of (playerSockets s))(c := None)) c' = Some q"
    then have ne: "c' \<noteq> c" and old: "map_of (playerSockets s) c' = Some q"
      by (auto split: if_splits)
    from A [OF old] A [OF sess] ne have "playerId q \<noteq> playerId pd" by auto
    with A [OF old] show "((map_of (activePlayers s))(playerId pd := None)) (playerId q) = Some c'"
      by simp
  next
    fix p c' assume h: "((map_of (activePlayers s))(playerId pd := None)) p = Some c'"
    then have ne: "p \<noteq> playerId pd" and old: "map_of (activePlayers s) p = Some c'"
      by (auto split: if_splits)
    from B [OF old] obtain q where q: "map_of (playerSockets s) c' = Some q" "playerId q = p"
      by blast
    with sess ne have "c' \<noteq> c" by auto
    with q show "\<exists>q. ((map_of (playerSockets s))(c := None)) c' = Some q \<and> playerId q = p"
      by simp
  qed
qed

lemma move_consistent:
  assumes kd: "keys_distinct s" and con: "consistent s"
    and sess: "map_of (playerSockets s) c = Some pd"
  shows "keys_distinct (s\<lparr>playerSockets := AList.update c (pd\<lparr>position := p\<rparr>) (playerSockets s)\<rparr>)
       \<and> consistent (s\<lparr>playerSockets := AList.update c (pd\<lparr>position := p\<rparr>) (playerSockets s)\<rparr>)"
proof -
  let ?s' = "s\<lparr>playerSockets := AList.update c (pd\<lparr>position := p\<rparr>) (playerSockets s)\<rparr>"
  have kd': "keys_distinct ?s'" using kd by (simp add: keys_distinct_def distinct_update)
  from con have A: "\<And>c' q. map_of (playerSockets s) c' = Some q
          \<Longrightarrow> map_of (activePlayers s) (playerId q) = Some c'"
    and B: "\<And>p c'. map_of (activePlayers s) p = Some c'
          \<Longrightarrow> \<exists>q. map_of (playerSockets s) c' = Some q \<and> playerId q = p"
    by (simp_all add: consistent_iff [OF kd])
  have ps: "map_of (playerSockets ?s') = (map_of (playerSockets s))(c \<mapsto> pd\<lparr>position := p\<rparr>)"
    and ap: "map_of (activePlayers ?s') = map_of (activePlayers s)"
    by (simp_all add: update_conv')
  have "consistent ?s'"
    unfolding consistent_iff [OF kd'] ps ap
  proof (intro conjI allI impI)
    fix c' q assume h: "((map_of (playerSockets s))(c \<mapsto> pd\<lparr>position := p\<rparr>)) c' = Some q"
    show "map_of (activePlayers s) (playerId q) = Some c'"
    proof (cases "c' = c")
      case True
      with h A [OF sess] show ?thesis by auto
    next
      case False
      with h A show ?thesis by simp
    qed
  next
    fix p' c' assume h: "map_of (activePlayers s) p' = Some c'"
    from B [OF h] obtain q where q: "map_of (playerSockets s) c' = Some q" "playerId q = p'"
      by blast
    show "\<exists>q. ((map_of (playerSockets s))(c \<mapsto> pd\<lparr>position := p\<rparr>)) c' = Some q \<and> playerId q = p'"
    proof (cases "c' = c")
      case True
      with q sess show ?thesis by simp
    next
      case False
      with q show ?thesis by simp
    qed
  qed
  with kd' show ?thesis by simp
qed

lemma step_consistent:
  assumes st: "step now i s = Inr (s', out)" and ns: "\<not> superseding i s"
    and kd: "keys_distinct s" and con: "consistent s"
  shows "keys_distinct s' \<and> consistent s'"
proof (cases i)
  case Tick
  with st kd con show ?thesis by (auto simp: sweep_def keys_distinct_def consistent_def)
next
  case (Recv c e)
  show ?thesis
  proof (cases e)
    case (Join data)
    with Recv st obtain d where d: "data = Some d" and s': "s' = register c d s"
      by (auto simp: player_join_def Let_def split: option.splits)
    from ns Recv Join d have "\<not> supersedes c d s" by simp
    with kd con s' show ?thesis
      by (simp add: register_keys_distinct register_consistent)
  next
    case (Move data)
    show ?thesis
    proof (cases "map_of (playerSockets s) c")
      case None
      with Move Recv st kd con show ?thesis by (auto simp: player_move_def)
    next
      case (Some pd)
      with Move Recv st obtain p where
        "s' = s\<lparr>playerSockets := AList.update c (pd\<lparr>position := p\<rparr>) (playerSockets s)\<rparr>"
        by (auto simp: player_move_def split: option.splits)
      with move_consistent [OF kd con Some] show ?thesis by simp
    qed
  next
    case (Cast data)
    with Recv st kd con show ?thesis
      by (auto simp: spell_cast_def Let_def keys_distinct_def consistent_def split: option.splits)
  next
    case (Damage data)
    with Recv st kd con show ?thesis
      by (auto simp: damage_dealt_def split: option.splits if_splits)
  next
    case (Death data)
    with Recv st kd con show ?thesis
      by (auto simp: player_death_def split: option.splits)
  next
    case (Chat data)
    with Recv st kd con show ?thesis
      by (auto simp: chat_message_def split: option.splits)
  next
    case Disconnect
    show ?thesis
    proof (cases "map_of (playerSockets s) c")
      case None
      with Disconnect Recv st kd con show ?thesis by (auto simp: disconnect_def)
    next
      case (Some pd)
      with Disconnect Recv st have "s' = deregister c pd s"
        by (auto simp: disconnect_def)
      with kd con Some show ?thesis
        by (simp add: deregister_keys_distinct deregister_consistent)
    qed
  qed
qed

lemma run_consistent:
  "run s tr = Inr s' \<Longrightarrow> no_supersede s tr \<Longrightarrow> keys_distinct s \<Longrightarrow> consistent s
     \<Longrightarrow> keys_distinct s' \<and> consistent s'"
proof (induction tr arbitrary: s)
  case Nil
  then show ?case by simp
next
  case (Cons a tr)
  obtain now i where a: "a = (now, i)" by (cases a)
  from Cons.prems(1) obtain s1 out where st: "step now i s = Inr (s1, out)"
    and rest: "run s1 tr = Inr s'"
    by (auto simp: a split: sum.splits)
  from Cons.prems(2) st have ns: "\<not> superseding i s" and nss: "no_supersede s1 tr"
    by (simp_all add: a)
  from step_consistent [OF st ns Cons.prems(3,4)]
  have "keys_distinct s1" "consistent s1" by simp_all
  from Cons.IH [OF rest nss this] show ?case .
qed

text \<open>
  Claim C1 is false on this code. Harry joins from connection A and again from
  connection B: the session stored under A stays, while its playerId now resolves to B.
\<close>

theorem second_join_breaks_agreement:
  "run init_state double_join = Inr double_join_state \<and>
   map_of (playerSockets double_join_state) ''A'' = Some (session_of harry) \<and>
   map_of (activePlayers double_join_state) (playerId (session_of harry)) = Some ''B'' \<and>
   \<not> consistent double_join_state"
  by (simp add: double_join_def double_join_state_def init_state_def player_join_def Let_def
      register_def consistent_def session_of_def harry_def)

text \<open>
  Claim C1, amended. After any run from the empty registry in which no join supersedes,
  the two maps agree: a session stored under a connection has its playerId sent to that
  connection, and an entry of the player-keyed map points to a connection whose session
  carries that playerId. Every join writes both maps.
\<close>

theorem maps_agree_without_supersede:
  "(run init_state tr = Inr s \<and> no_supersede init_state tr \<longrightarrow>
      consistent s \<and>
      (map_of (playerSockets s) c = Some pd \<longrightarrow> map_of (activePlayers s) (playerId pd) = Some c) \<and>
      (map_of (activePlayers s) p = Some c \<longrightarrow>
         (\<exists>q. map_of (playerSockets s) c = Some q \<and> playerId q = p))) \<and>
   map_of (activePlayers (register c d s0)) (j_playerId d) = Some c \<and>
   map_of (playerSockets (register c d s0)) c = Some (session_of d) \<and>
   playerId (session_of d) = j_playerId d"
proof -
  have init: "keys_distinct init_state" "consistent init_state"
    by (simp_all add: keys_distinct_def consistent_def init_state_def)
  have inv: "consistent s \<and>
      (map_of (playerSockets s) c = Some pd \<longrightarrow> map_of (activePlayers s) (playerId pd) = Some c) \<and>
      (map_of (activePlayers s) p = Some c \<longrightarrow>
         (\<exists>q. map_of (playerSockets s) c = Some q \<and> playerId q = p))"
    if r: "run init_state tr = Inr s" and n: "no_supersede init_state tr"
  proof -
    from run_consistent [OF r n init] have kd: "keys_distinct s" and con: "consistent s"
      by simp_all
    from con [unfolded consistent_iff [OF kd]] con show ?thesis by blast
  qed
  have reg: "map_of (activePlayers (register c d s0)) (j_playerId d) = Some c \<and>
      map_of (playerSockets (register c d s0)) c = Some (session_of d) \<and>
      playerId (session_of d) = j_playerId d"
    by (simp add: register_def update_conv' session_of_def)
  show ?thesis using inv reg by blast
qed

theorem maps_agree_without_supersede_witness:
  "run init_state orderly_trace
     = Inr \<lparr>activePlayers = [(''p2'', ''B'')], playerSockets = [(''B'', session_of draco)],
            recentSpells = []\<rparr> \<and>
   no_supersede init_state orderly_trace \<and>
   consistent \<lparr>activePlayers = [(''p2'', ''B'')], playerSockets = [(''B'', session_of draco)],
            recentSpells = []\<rparr>"
  using maps_agree_without_supersede [of orderly_trace
      "\<lparr>activePlayers = [(''p2'', ''B'')], playerSockets = [(''B'', session_of draco)],
            recentSpells = []\<rparr>" "''B''" "session_of draco" "''p2''"]
  by (simp add: orderly_trace_def init_state_def player_join_def Let_def register_def
      disconnect_def deregister_def supersedes_def session_of_def harry_def draco_def
      AList.delete_eq)

subsection \<open>Damage is addressed through the player-keyed map\<close>

text \<open>
  Claim C3 is false on this code. After the double join of Harry and the disconnect of
  A, connection B still holds Harry's session, but the player-keyed map has lost the
  entry for him: damage that Ron reports on Harry is dropped.
\<close>

theorem damage_to_registered_player_dropped:
  "run init_state stale_trace = Inr stale_state \<and>
   map_of (playerSockets stale_state) ''B'' = Some (session_of harry) \<and>
   playerId (session_of harry) = ''p1'' \<and>
   damage_dealt ''C'' (Some \<lparr>targetId = ''p1'', damage = 30, source = ''Stupefy''\<rparr>) stale_state
     = Inr (stale_state, [])"
  by (simp add: stale_trace_def stale_state_def double_join_def init_state_def player_join_def
      Let_def register_def disconnect_def deregister_def damage_dealt_def session_of_def
      harry_def ron_def AList.delete_eq)

text \<open>
  Claim C3, amended. For a joined sender and a target \<open>t\<close>: if the player-keyed map
  sends \<open>t\<close> to a connection \<open>tc\<close> (a socket id, which is never the empty
  string), exactly one message is emitted, the damage-received
  message with the sender's playerId, the damage and the source, addressed to the room of
  \<open>tc\<close> alone, which is \<open>tc\<close> if it is connected and nobody otherwise; if the
  player-keyed map has no entry for \<open>t\<close>, nothing is emitted and nothing is raised. The
  state is unchanged in both cases. Where the two maps agree this is the claim as it
  stands: a target with a session under connection \<open>tc\<close> gets the one message at
  \<open>tc\<close>, and a target without a session gets none.
\<close>

theorem damage_unicast_to_resolved:
  "map_of (playerSockets s) c = Some pd \<Longrightarrow>
     (map_of (activePlayers s) t = Some tc \<and> tc \<noteq> [] \<longrightarrow>
        damage_dealt c (Some \<lparr>targetId = t, damage = n, source = src\<rparr>) s
          = Inr (s, [(ToRoom tc, DamageReceived (playerId pd) n src)]) \<and>
        recipients conns (ToRoom tc) = (if tc \<in> conns then {tc} else {})) \<and>
     (map_of (activePlayers s) t = None \<longrightarrow>
        damage_dealt c (Some \<lparr>targetId = t, damage = n, source = src\<rparr>) s = Inr (s, [])) \<and>
     (consistent s \<and> map_of (playerSockets s) tc = Some q \<and> playerId q = t \<and> tc \<noteq> [] \<longrightarrow>
        damage_dealt c (Some \<lparr>targetId = t, damage = n, source = src\<rparr>) s
          = Inr (s, [(ToRoom tc, DamageReceived (playerId pd) n src)])) \<and>
     (consistent s \<and> \<not> list_ex (\<lambda>(c', q). playerId q = t) (playerSockets s) \<longrightarrow>
        damage_dealt c (Some \<lparr>targetId = t, damage = n, source = src\<rparr>) s = Inr (s, []))"
proof -
  assume sender: "map_of (playerSockets s) c = Some pd"
  let ?r = "damage_dealt c (Some \<lparr>targetId = t, damage = n, source = src\<rparr>) s"
  have hit: "?r = Inr (s, [(ToRoom tc, DamageReceived (playerId pd) n src)])"
    if "map_of (activePlayers s) t = Some tc" and "tc \<noteq> []" for tc
    using sender that by (simp add: damage_dealt_def)
  have miss: "?r = Inr (s, [])" if "map_of (activePlayers s) t = None"
    using sender that by (simp add: damage_dealt_def)
  have room: "recipients conns (ToRoom tc) = (if tc \<in> conns then {tc} else {})"
    by simp
  have agree_hit: "?r = Inr (s, [(ToRoom tc, DamageReceived (playerId pd) n src)])"
    if con: "consistent s" and q: "map_of (playerSockets s) tc = Some q" "playerId q = t"
      and ne: "tc \<noteq> []"
  proof -
    from con have "list_all (\<lambda>(c, pd). map_of (activePlayers s) (playerId pd) = Some c)
        (playerSockets s)"
      by (simp add: consistent_def)
    from list_all_map_of [OF this q(1)] q(2) have "map_of (activePlayers s) t = Some tc"
      by simp
    then show ?thesis using ne by (rule hit)
  qed
  have agree_miss: "?r = Inr (s, [])"
    if con: "consistent s"
      and none: "\<not> list_ex (\<lambda>(c', q). playerId q = t) (playerSockets s)"
  proof (cases "map_of (activePlayers s) t")
    case None
    then show ?thesis by (rule miss)
  next
    case (Some tc')
    from con have "list_all (\<lambda>(p, c). case map_of (playerSockets s) c of
        None \<Rightarrow> False | Some pd \<Rightarrow> playerId pd = p) (activePlayers s)"
      by (simp add: consistent_def)
    from list_all_map_of [OF this Some]
    obtain q' where "map_of (playerSockets s) tc' = Some q'" "playerId q' = t"
      by (auto split: option.splits)
    then have "(tc', q') \<in> set (playerSockets s)" "playerId q' = t"
      by (auto dest: map_of_SomeD)
    with none show ?thesis by (auto simp: list_ex_iff)
  qed
  show ?thesis using hit miss room agree_hit agree_miss by blast
qed

theorem damage_unicast_to_resolved_witness:
  "map_of (playerSockets two_players) ''A'' = Some (session_of harry) \<and>
   map_of (activePlayers two_players) ''p2'' = Some ''B'' \<and>
   damage_dealt ''A'' (Some \<lparr>targetId = ''p2'', damage = 30, source = ''Stupefy''\<rparr>) two_players
     = Inr (two_players, [(ToRoom ''B'', DamageReceived ''p1'' 30 ''Stupefy'')]) \<and>
   recipients {''A'', ''B'', ''C''} (ToRoom ''B'') = {''B''} \<and>
   map_of (activePlayers two_players) ''p9'' = None \<and>
   damage_dealt ''A'' (Some \<lparr>targetId = ''p9'', damage = 30, source = ''Stupefy''\<rparr>) two_players
     = Inr (two_players, [])"
  using damage_unicast_to_resolved [of two_players "''A''" "session_of harry" "''p2''" "''B''" 30 "''Stupefy''"
              "{''A'', ''B'', ''C''}"]
        damage_unicast_to_resolved [of two_players "''A''" "session_of harry" "''p9''" "''B''" 30 "''Stupefy''"
              "{''A'', ''B'', ''C''}"]
  by (simp add: two_players_def session_of_def harry_def draco_def)

subsection \<open>Join: roster and announcement\<close>







subsection \<open>Health at join\<close>

lemma session_at_join:
  "map_of (playerSockets (register c d s)) c = Some (session_of d)"
  by (simp add: register_def update_conv')

lemma step_full_health:
  assumes "step now i s = Inr (s', out)" and "full_health s"
  shows "full_health s'"
proof (cases i)
  case Tick
  with assms show ?thesis by (auto simp: sweep_def full_health_def)
next
  case (Recv c e)
  show ?thesis
  proof (cases e)
    case (Join data)
    with Recv assms show ?thesis
      by (auto simp: player_join_def register_def Let_def full_health_def session_of_def
          intro!: list_all_update split: option.splits)
  next
    case (Move data)
    show ?thesis
    proof (cases "map_of (playerSockets s) c")
      case None
      with Move Recv assms show ?thesis by (auto simp: player_move_def)
    next
      case (Some pd)
      from list_all_map_of [OF assms(2) [unfolded full_health_def] Some]
      have "health pd = 100 \<and> maxHealth pd = 100" by simp
      with Some Move Recv assms show ?thesis
        by (auto simp: player_move_def full_health_def intro!: list_all_update
            split: option.splits)
    qed
  next
    case (Cast data)
    with Recv assms show ?thesis
      by (auto simp: spell_cast_def Let_def full_health_def split: option.splits)
  next
    case (Damage data)
    with Recv assms show ?thesis
      by (auto simp: damage_dealt_def split: option.splits if_splits)
  next
    case (Death data)
    with Recv assms show ?thesis
      by (auto simp: player_death_def split: option.splits)
  next
    case (Chat data)
    with Recv assms show ?thesis
      by (auto simp: chat_message_def split: option.splits)
  next
    case Disconnect
    with Recv assms show ?thesis
      by (auto simp: disconnect_def deregister_def full_health_def intro!: list_all_delete
          split: option.splits)
  qed
qed

lemma run_full_health:
  "run s tr = Inr s' \<Longrightarrow> full_health s \<Longrightarrow> full_health s'"
proof (induction tr arbitrary: s)
  case Nil
  then show ?case by simp
next
  case (Cons a tr)
  obtain now i where a: "a = (now, i)" by (cases a)
  from Cons.prems(1) obtain s1 out where st: "step now i s = Inr (s1, out)"
    and rest: "run s1 tr = Inr s'"
    by (auto simp: a split: sum.splits)
  from Cons.IH [OF rest step_full_health [OF st Cons.prems(2)]] show ?case .
qed

lemma moved_reports_session_health:
  assumes "player_move c data s = Inr (s', out)"
    and "(tg, PlayerMoved p u h pos hp mhp) \<in> set out"
  shows "\<exists>pd. map_of (playerSockets s) c = Some pd \<and> hp = health pd \<and> mhp = maxHealth pd"
  using assms by (auto simp: player_move_def split: option.splits)

text \<open>
  Claim C10. The session a join stores has health 100 and maxHealth 100 whatever the
  payload, and the position of the payload or \<open>(0, 0)\<close> without one. No handler of this
  layer writes health afterwards, so in every run from the empty registry each
  player-moved message reports health 100 and maxHealth 100. (The other writer of health
  is the REST route \<^verbatim>\<open>POST /player/position\<close> of \<^verbatim>\<open>routes/game.js\<close>, which is not an
  input of these runs.)
\<close>

theorem join_sets_full_health:
  "(player_join c0 (Some d) s0 = Inr (s1, out0) \<longrightarrow>
      (\<exists>pd. map_of (playerSockets s1) c0 = Some pd \<and> health pd = 100 \<and> maxHealth pd = 100 \<and>
            position pd = (case j_position d of None \<Rightarrow> \<lparr>pos_x = 0, pos_y = 0\<rparr> | Some p \<Rightarrow> p))) \<and>
   (run init_state tr = Inr s \<and> handle now c (Move data) s = Inr (s', out) \<and>
      (tg, PlayerMoved p u h pos hp mhp) \<in> set out
      \<longrightarrow> hp = 100 \<and> mhp = 100)"
proof -
  have join: "\<exists>pd. map_of (playerSockets s1) c0 = Some pd \<and> health pd = 100 \<and> maxHealth pd = 100 \<and>
            position pd = (case j_position d of None \<Rightarrow> \<lparr>pos_x = 0, pos_y = 0\<rparr> | Some p \<Rightarrow> p)"
    if "player_join c0 (Some d) s0 = Inr (s1, out0)"
  proof -
    from that have "s1 = register c0 d s0" by (auto simp: player_join_def Let_def)
    then have "map_of (playerSockets s1) c0 = Some (session_of d)" by (simp add: session_at_join)
    then show ?thesis by (simp add: session_of_def)
  qed
  have move: "hp = 100 \<and> mhp = 100"
    if r: "run init_state tr = Inr s" and m: "handle now c (Move data) s = Inr (s', out)"
      and o: "(tg, PlayerMoved p u h pos hp mhp) \<in> set out"
  proof -
    have "full_health init_state" by (simp add: full_health_def init_state_def)
    with r have fh: "full_health s" by (rule run_full_health)
    from m have "player_move c data s = Inr (s', out)" by simp
    from moved_reports_session_health [OF this o]
    obtain pd where pd: "map_of (playerSockets s) c = Some pd" "hp = health pd" "mhp = maxHealth pd"
      by blast
    from list_all_map_of [OF fh [unfolded full_health_def] pd(1)] pd(2,3)
    show ?thesis by simp
  qed
  show ?thesis using join move by blast
qed

theorem join_sets_full_health_witness:
  "player_join ''B'' (Some draco) init_state
     = Inr (register ''B'' draco init_state,
            [(ToSocket ''B'', PlayersList []),
             (BroadcastFrom ''B'', PlayerJoined (joinedData draco))]) \<and>
   map_of (playerSockets (register ''B'' draco init_state)) ''B''
     = Some \<lparr>playerId = ''p2'', username = ''Draco'', house = ''Slytherin'',
             position = \<lparr>pos_x = 0, pos_y = 0\<rparr>, health = 100, maxHealth = 100\<rparr> \<and>
   run init_state [(0, Recv ''B'' (Join (Some draco)))] = Inr (register ''B'' draco init_state) \<and>
   handle 1 ''B'' (Move (Some \<lparr>m_position = Some \<lparr>pos_x = 5, pos_y = 5\<rparr>\<rparr>))
       (register ''B'' draco init_state)
     = Inr (register ''B'' draco init_state
              \<lparr>playerSockets := [(''B'', (session_of draco)\<lparr>position := \<lparr>pos_x = 5, pos_y = 5\<rparr>\<rparr>)]\<rparr>,
            [(BroadcastFrom ''B'',
              PlayerMoved ''p2'' ''Draco'' ''Slytherin'' \<lparr>pos_x = 5, pos_y = 5\<rparr> 100 100)])"
  using join_sets_full_health [of "''B''" draco init_state "register ''B'' draco init_state"
      "[(ToSocket ''B'', PlayersList []), (BroadcastFrom ''B'', PlayerJoined (joinedData draco))]"
      "[(0, Recv ''B'' (Join (Some draco)))]" "register ''B'' draco init_state" 1 "''B''"
      "Some \<lparr>m_position = Some \<lparr>pos_x = 5, pos_y = 5\<rparr>\<rparr>"
      "register ''B'' draco init_state
              \<lparr>playerSockets := [(''B'', (session_of draco)\<lparr>position := \<lparr>pos_x = 5, pos_y = 5\<rparr>\<rparr>)]\<rparr>"
      "[(BroadcastFrom ''B'',
              PlayerMoved ''p2'' ''Draco'' ''Slytherin'' \<lparr>pos_x = 5, pos_y = 5\<rparr> 100 100)]"
      "BroadcastFrom ''B''" "''p2''" "''Draco''" "''Slytherin''" "\<lparr>pos_x = 5, pos_y = 5\<rparr>" 100 100]
  by (simp add: player_join_def player_move_def Let_def register_def init_state_def draco_def
      session_of_def currentPlayers_def)

end
